theory Spec2Isabelle
  imports Complex_Main "HOL-Library.Multiset"
begin

section \<open>Multi-hot encoding of integer-encoded reviews\<close>

text \<open>
  The notebooks define one function of their own, in the classification notebook and
  again in the over/under-fitting notebook:
  \<^verbatim>\<open>
  def vectorize_sequences(sequences, dimension=10000):
      # Create an all-zero matrix of shape (len(sequences), dimension)
      results = np.zeros((len(sequences), dimension))
      for i, sequence in enumerate(sequences):
          results[i, sequence] = 1.  # set specific indices of results[i] to 1s
      return results
  \<close>
  (one copy of the classification notebook also prints \<^verbatim>\<open>results.shape\<close> before the
  loop, which changes no value). A review is a list of Python integers. The matrix is a list of rows; its entries are
  the float64 values 0.0 and 1.0, which are exact, so they are read as the reals 0 and 1.
  The width \<open>dimension\<close> is the size of an array axis, a natural number; numpy
  keeps axis sizes in its signed 64-bit index type, so the properties that depend on it
  are stated for a dimension below \<open>2 ^ 63\<close>. An index that numpy rejects raises
  IndexError: the call returns no matrix.
\<close>

datatype py_error = IndexError

type_synonym review = "int list"

type_synonym matrix = "real list list"

definition zeros :: "nat \<Rightarrow> nat \<Rightarrow> matrix" where
  "zeros rows cols = replicate rows (replicate cols 0)"

text \<open>
  The list \<^verbatim>\<open>sequence\<close> is first turned into an index array. A list whose integers
  all fit the signed 64-bit type is taken as it is. A list of non-negative integers below
  \<open>2 ^ 64\<close> of which some do not fit becomes an unsigned 64-bit array, which is cast
  to the index type: an entry from \<open>2 ^ 63\<close> on is read as that entry minus
  \<open>2 ^ 64\<close>. Any other list gives an array that is not of integer type, which is
  refused as an index.
\<close>

definition index_bound :: int where
  "index_bound = 2 ^ 63"

definition cast_index :: "int \<Rightarrow> int" where
  "cast_index t = (if index_bound \<le> t then t - 2 * index_bound else t)"

definition index_array :: "review \<Rightarrow> py_error + int list" where
  "index_array sequence =
     (if \<forall>t \<in> set sequence. - index_bound \<le> t \<and> t < index_bound then Inr sequence
      else if \<forall>t \<in> set sequence. 0 \<le> t \<and> t < 2 * index_bound
        then Inr (map cast_index sequence)
      else Inl IndexError)"

text \<open>
  numpy's reading of an integer index on an axis of \<open>n\<close> entries: an index in
  \<open>0 .. n - 1\<close> is itself, an index in \<open>-n .. -1\<close> counts from the end, any other
  index is out of bounds.
\<close>

definition normalize_index :: "nat \<Rightarrow> int \<Rightarrow> py_error + nat" where
  "normalize_index n t =
     (if 0 \<le> t \<and> t < int n then Inr (nat t)
      else if - int n \<le> t \<and> t < 0 then Inr (nat (t + int n))
      else Inl IndexError)"

fun normalize_indices :: "nat \<Rightarrow> int list \<Rightarrow> py_error + nat list" where
  "normalize_indices n [] = Inr []"
| "normalize_indices n (t # ts) =
     (case normalize_index n t of
        Inl e \<Rightarrow> Inl e
      | Inr j \<Rightarrow> (case normalize_indices n ts of
                   Inl e \<Rightarrow> Inl e
                 | Inr js \<Rightarrow> Inr (j # js)))"

text \<open>
  The assignment \<^verbatim>\<open>results[i, sequence] = 1.\<close>: row \<open>i\<close> must exist, the list
  must give an index array, every index of it is checked against the row's width, and
  the entries named are set to 1.
\<close>

definition set_ones :: "nat list \<Rightarrow> real list \<Rightarrow> real list" where
  "set_ones js row = fold (\<lambda>j r. r[j := 1]) js row"

definition assign_ones :: "matrix \<Rightarrow> nat \<Rightarrow> review \<Rightarrow> py_error + matrix" where
  "assign_ones results i sequence =
     (if i < length results then
        (case index_array sequence of
           Inl e \<Rightarrow> Inl e
         | Inr idx \<Rightarrow>
             (case normalize_indices (length (results ! i)) idx of
                Inl e \<Rightarrow> Inl e
              | Inr js \<Rightarrow> Inr (results[i := set_ones js (results ! i)])))
      else Inl IndexError)"

text \<open>The loop over \<^verbatim>\<open>enumerate(sequences)\<close>, with the matrix passed along.\<close>

fun vectorize_loop :: "nat \<Rightarrow> review list \<Rightarrow> matrix \<Rightarrow> py_error + matrix" where
  "vectorize_loop i [] results = Inr results"
| "vectorize_loop i (sequence # rest) results =
     (case assign_ones results i sequence of
        Inl e \<Rightarrow> Inl e
      | Inr results' \<Rightarrow> vectorize_loop (Suc i) rest results')"

definition vectorize_sequences :: "review list \<Rightarrow> nat \<Rightarrow> py_error + matrix" where
  "vectorize_sequences sequences dimension =
     vectorize_loop 0 sequences (zeros (length sequences) dimension)"

text \<open>The default \<^verbatim>\<open>dimension=10000\<close> of the source.\<close>

definition default_dimension :: nat where
  "default_dimension = 10000"

subsection \<open>Auxiliary notions for stating the properties\<close>

text \<open>The encoding of one review on its own, as the loop body computes it on a zero row.\<close>

definition encode_row :: "nat \<Rightarrow> review \<Rightarrow> py_error + real list" where
  "encode_row d s =
     (case index_array s of
        Inl e \<Rightarrow> Inl e
      | Inr idx \<Rightarrow>
          (case normalize_indices d idx of
             Inl e \<Rightarrow> Inl e
           | Inr js \<Rightarrow> Inr (set_ones js (replicate d 0))))"

fun encode_rows :: "nat \<Rightarrow> review list \<Rightarrow> py_error + matrix" where
  "encode_rows d [] = Inr []"
| "encode_rows d (s # ss) =
     (case encode_row d s of
        Inl e \<Rightarrow> Inl e
      | Inr r \<Rightarrow> (case encode_rows d ss of
                   Inl e \<Rightarrow> Inl e
                 | Inr rs \<Rightarrow> Inr (r # rs)))"

text \<open>
  Stacking two results row-wise: the rows of the first above the rows of the second; an
  error of either operand is the error of the whole, the first operand being evaluated
  first.
\<close>

definition vstack :: "py_error + matrix \<Rightarrow> py_error + matrix \<Rightarrow> py_error + matrix" where
  "vstack a b =
     (case a of
        Inl e \<Rightarrow> Inl e
      | Inr ra \<Rightarrow> (case b of Inl e \<Rightarrow> Inl e | Inr rb \<Rightarrow> Inr (ra @ rb)))"

text \<open>The column that numpy reads an accepted index as.\<close>

definition wrap :: "nat \<Rightarrow> int \<Rightarrow> nat" where
  "wrap d t = (if 0 \<le> t then nat t else nat (t + int d))"

text \<open>Every token of every review is a valid non-negative column index.\<close>

definition in_range :: "nat \<Rightarrow> review list \<Rightarrow> bool" where
  "in_range d ss = (\<forall>s \<in> set ss. \<forall>t \<in> set s. 0 \<le> t \<and> t < int d)"

section \<open>The loop computes the row encodings\<close>

lemma length_set_ones: "length (set_ones js row) = length row"
  unfolding set_ones_def by (induction js arbitrary: row) simp_all

lemma nth_set_ones:
  "k < length row \<Longrightarrow> set_ones js row ! k = (if k \<in> set js then 1 else row ! k)"
  unfolding set_ones_def
proof (induction js arbitrary: row)
  case Nil
  then show ?case by simp
next
  case (Cons j js)
  then show ?case by (simp add: nth_list_update)
qed

lemma assign_ones_zero_row:
  "assign_ones (done @ replicate (Suc n) (replicate d 0)) (length done) s =
     (case encode_row d s of
        Inl e \<Rightarrow> Inl e
      | Inr r \<Rightarrow> Inr ((done @ [r]) @ replicate n (replicate d 0)))"
  by (simp add: assign_ones_def encode_row_def nth_append list_update_append
      split: sum.splits)

lemma vectorize_loop_rows:
  "length done = i \<Longrightarrow>
   vectorize_loop i rest (done @ replicate (length rest) (replicate d 0)) =
     (case encode_rows d rest of Inl e \<Rightarrow> Inl e | Inr rows \<Rightarrow> Inr (done @ rows))"
proof (induction rest arbitrary: i "done")
  case Nil
  then show ?case by simp
next
  case (Cons s rest)
  have step: "assign_ones (done @ replicate (length (s # rest)) (replicate d 0)) i s =
     (case encode_row d s of
        Inl e \<Rightarrow> Inl e
      | Inr r \<Rightarrow> Inr ((done @ [r]) @ replicate (length rest) (replicate d 0)))"
    using assign_ones_zero_row [of "done" "length rest" d s] Cons.prems by simp
  show ?case
  proof (cases "encode_row d s")
    case (Inl e)
    with step show ?thesis by simp
  next
    case (Inr r)
    have "length (done @ [r]) = Suc i"
      using Cons.prems by simp
    from Cons.IH [OF this] step Inr show ?thesis
      by (simp split: sum.splits)
  qed
qed

lemma vectorize_sequences_rows: "vectorize_sequences ss d = encode_rows d ss"
proof -
  have "vectorize_loop 0 ss ([] @ replicate (length ss) (replicate d 0)) =
        (case encode_rows d ss of Inl e \<Rightarrow> Inl e | Inr rows \<Rightarrow> Inr ([] @ rows))"
    by (rule vectorize_loop_rows) simp
  then show ?thesis
    by (simp add: vectorize_sequences_def zeros_def split: sum.splits)
qed

section \<open>Properties of the row encodings\<close>


lemma index_array_small:
  "\<forall>t \<in> set s. 0 \<le> t \<and> t < int d \<Longrightarrow> int d \<le> index_bound \<Longrightarrow> index_array s = Inr s"
  by (fastforce simp add: index_array_def index_bound_def)

lemma index_array_cong:
  assumes "set a = set b"
  shows "(index_array a = Inl IndexError \<and> index_array b = Inl IndexError) \<or>
         (\<exists>f. index_array a = Inr (map f a) \<and> index_array b = Inr (map f b))"
proof -
  consider (signed) "\<forall>t \<in> set a. - index_bound \<le> t \<and> t < index_bound"
    | (unsigned) "\<not> (\<forall>t \<in> set a. - index_bound \<le> t \<and> t < index_bound)"
        "\<forall>t \<in> set a. 0 \<le> t \<and> t < 2 * index_bound"
    | (other) "\<not> (\<forall>t \<in> set a. - index_bound \<le> t \<and> t < index_bound)"
        "\<not> (\<forall>t \<in> set a. 0 \<le> t \<and> t < 2 * index_bound)"
    by blast
  then show ?thesis
  proof cases
    case signed
    from signed have sb: "\<forall>t \<in> set b. - index_bound \<le> t \<and> t < index_bound"
      unfolding assms .
    have "index_array a = Inr (map id a)"
      using signed by (simp only: index_array_def if_P if_True list.map_id)
    moreover have "index_array b = Inr (map id b)"
      using sb by (simp only: index_array_def if_P if_True list.map_id)
    ultimately show ?thesis by blast
  next
    case unsigned
    from unsigned have ub: "\<not> (\<forall>t \<in> set b. - index_bound \<le> t \<and> t < index_bound)"
        "\<forall>t \<in> set b. 0 \<le> t \<and> t < 2 * index_bound"
      unfolding assms by blast+
    have "index_array a = Inr (map cast_index a)"
      using unsigned by (simp only: index_array_def if_P if_not_P if_True if_False)
    moreover have "index_array b = Inr (map cast_index b)"
      using ub by (simp only: index_array_def if_P if_not_P if_True if_False)
    ultimately show ?thesis by blast
  next
    case other
    from other have ob: "\<not> (\<forall>t \<in> set b. - index_bound \<le> t \<and> t < index_bound)"
        "\<not> (\<forall>t \<in> set b. 0 \<le> t \<and> t < 2 * index_bound)"
      unfolding assms by blast+
    have "index_array a = Inl IndexError"
      using other by (simp only: index_array_def if_not_P if_True if_False)
    moreover have "index_array b = Inl IndexError"
      using ob by (simp only: index_array_def if_not_P if_True if_False)
    ultimately show ?thesis by blast
  qed
qed


lemma normalize_indices_in_range:
  "\<forall>t \<in> set s. 0 \<le> t \<and> t < int d \<Longrightarrow> normalize_indices d s = Inr (map nat s)"
  by (induction s) (simp_all add: normalize_index_def)

lemma normalize_indices_cases:
  "normalize_indices d s =
     (if \<forall>t \<in> set s. - int d \<le> t \<and> t < int d then Inr (map (wrap d) s) else Inl IndexError)"
  by (induction s) (auto simp add: normalize_index_def wrap_def)


lemma set_ones_cong:
  assumes "set js = set ks"
  shows "set_ones js row = set_ones ks row"
proof (rule nth_equalityI)
  show "length (set_ones js row) = length (set_ones ks row)"
    by (simp add: length_set_ones)
next
  fix k assume "k < length (set_ones js row)"
  then have "k < length row" by (simp add: length_set_ones)
  then show "set_ones js row ! k = set_ones ks row ! k"
    using assms by (simp add: nth_set_ones)
qed

lemma encode_row_cong:
  assumes "set a = set b"
  shows "encode_row d a = encode_row d b"
proof -
  from index_array_cong [OF assms] show ?thesis
  proof (elim disjE conjE exE)
    assume "index_array a = Inl IndexError" "index_array b = Inl IndexError"
    then show ?thesis by (simp add: encode_row_def)
  next
    fix f
    assume ia: "index_array a = Inr (map f a)" and ib: "index_array b = Inr (map f b)"
    have img: "set (map f a) = set (map f b)"
      using assms by simp
    have "set (map (wrap d) (map f a)) = set (map (wrap d) (map f b))"
      using assms by simp
    then have "set_ones (map (wrap d) (map f a)) (replicate d 0) =
               set_ones (map (wrap d) (map f b)) (replicate d 0)"
      by (rule set_ones_cong)
    moreover have "(\<forall>t \<in> set (map f a). - int d \<le> t \<and> t < int d) \<longleftrightarrow>
                   (\<forall>t \<in> set (map f b). - int d \<le> t \<and> t < int d)"
      using img by simp
    ultimately show ?thesis
      unfolding encode_row_def ia ib normalize_indices_cases by simp
  qed
qed

lemma encode_row_in_range:
  assumes "\<forall>t \<in> set s. 0 \<le> t \<and> t < int d" and "int d \<le> index_bound"
  shows "\<exists>r. encode_row d s = Inr r \<and> length r = d \<and>
           (\<forall>j < d. r ! j = (if int j \<in> set s then 1 else 0))"
proof -
  have "index_array s = Inr s"
    using assms by (rule index_array_small)
  then have r: "encode_row d s = Inr (set_ones (map nat s) (replicate d 0))"
    using assms(1) by (simp add: encode_row_def normalize_indices_in_range)
  have "j \<in> set (map nat s) \<longleftrightarrow> int j \<in> set s" for j
    using assms(1) by (force simp add: image_iff)
  then show ?thesis
    by (simp add: r length_set_ones nth_set_ones)
qed


lemma encode_rows_append:
  "encode_rows d (xs @ ys) = vstack (encode_rows d xs) (encode_rows d ys)"
  by (induction xs) (simp_all add: vstack_def split: sum.splits)

lemma encode_rows_cong:
  "list_all2 (\<lambda>a b. set a = set b) xs ys \<Longrightarrow> encode_rows d xs = encode_rows d ys"
proof (induction xs ys rule: list_all2_induct)
  case Nil
  then show ?case by simp
next
  case (Cons a xs b ys)
  have "encode_row d a = encode_row d b"
    using Cons.hyps(1) by (rule encode_row_cong)
  with Cons show ?case by (simp split: sum.splits)
qed

lemma encode_rows_Inr:
  "encode_rows d ss = Inr m \<Longrightarrow>
   length m = length ss \<and> (\<forall>i < length ss. encode_row d (ss ! i) = Inr (m ! i))"
proof (induction ss arbitrary: m)
  case Nil
  then show ?case by simp
next
  case (Cons s ss)
  then show ?case
    by (auto split: sum.splits simp add: nth_Cons split: nat.splits)
qed

lemma encode_rows_in_range:
  "in_range d ss \<Longrightarrow> int d \<le> index_bound \<Longrightarrow> \<exists>m. encode_rows d ss = Inr m"
proof (induction ss)
  case Nil
  then show ?case by simp
next
  case (Cons s ss)
  have "\<forall>t \<in> set s. 0 \<le> t \<and> t < int d"
    using Cons.prems(1) by (simp add: in_range_def)
  then obtain r where "encode_row d s = Inr r"
    using encode_row_in_range [of s d] Cons.prems(2) by blast
  moreover have "in_range d ss"
    using Cons.prems(1) by (simp add: in_range_def)
  then obtain m where "encode_rows d ss = Inr m"
    using Cons.IH Cons.prems(2) by blast
  ultimately show ?case by simp
qed


lemma vectorize_sequences_in_range:
  assumes "in_range d ss" and "int d \<le> index_bound"
  shows "\<exists>m. vectorize_sequences ss d = Inr m \<and> length m = length ss \<and>
           (\<forall>i < length ss. length (m ! i) = d \<and>
              (\<forall>j < d. m ! i ! j = (if int j \<in> set (ss ! i) then 1 else 0)))"
proof -
  obtain m where m: "encode_rows d ss = Inr m"
    using encode_rows_in_range [OF assms] by blast
  have rows: "length m = length ss" "\<forall>i < length ss. encode_row d (ss ! i) = Inr (m ! i)"
    using encode_rows_Inr [OF m] by simp_all
  have "length (m ! i) = d \<and> (\<forall>j < d. m ! i ! j = (if int j \<in> set (ss ! i) then 1 else 0))"
    if "i < length ss" for i
  proof -
    have "\<forall>t \<in> set (ss ! i). 0 \<le> t \<and> t < int d"
      using assms(1) that nth_mem [of i ss] by (auto simp add: in_range_def)
    then obtain r where "encode_row d (ss ! i) = Inr r" "length r = d"
      "\<forall>j < d. r ! j = (if int j \<in> set (ss ! i) then 1 else 0)"
      using encode_row_in_range [of "ss ! i" d] assms(2) by blast
    moreover have "encode_row d (ss ! i) = Inr (m ! i)"
      using rows(2) that by simp
    ultimately show ?thesis by simp
  qed
  with m rows(1) show ?thesis
    by (simp add: vectorize_sequences_rows)
qed

text \<open>
  Indices that numpy reads from the end: a negative token, and a token from
  \<open>2 ^ 63\<close> on that the cast to the index type turns into one.
\<close>

lemma wrapped_tokens:
  "vectorize_sequences [[2 ^ 64 - 1]] 3 = Inr [[0, 0, 1]]"
  "vectorize_sequences [[0], [2 ^ 64 - 2]] 3 = Inr [[1, 0, 0], [0, 1, 0]]"
  "vectorize_sequences [[- 1, 2 ^ 64 - 1]] 3 = Inl IndexError"
  "vectorize_sequences [[2 ^ 64]] 3 = Inl IndexError"
  by (simp_all add: vectorize_sequences_def zeros_def assign_ones_def index_array_def
      index_bound_def cast_index_def normalize_index_def set_ones_def numeral_3_eq_3)

section \<open>The multi-hot matrix\<close>

text \<open>
  C1. A review is a sequence of word-rank indices, natural numbers. For every list of
  \<open>N\<close> reviews whose token indices all lie below 10000, \<open>vectorize_sequences\<close> with the
  default dimension returns a matrix of \<open>N\<close> rows and 10000 columns whose entries are
  all 0.0 or 1.0, and entry \<open>(i, j)\<close> is 1.0 if and only if word index \<open>j\<close> occurs in
  review \<open>i\<close>.
\<close>

theorem c1_multi_hot_matrix:
  fixes reviews :: "nat list list"
  assumes "\<forall>s \<in> set reviews. \<forall>t \<in> set s. t < 10000"
  shows "\<exists>m. vectorize_sequences (map (map int) reviews) default_dimension = Inr m \<and>
           length m = length reviews \<and>
           (\<forall>i < length reviews. length (m ! i) = 10000 \<and>
              (\<forall>j < 10000.
                 (m ! i ! j = 0 \<or> m ! i ! j = 1) \<and>
                 (m ! i ! j = 1 \<longleftrightarrow> j \<in> set (reviews ! i))))"
proof -
  let ?ss = "map (map int) reviews"
  have "in_range default_dimension ?ss"
    using assms by (auto simp add: in_range_def default_dimension_def)
  moreover have "int default_dimension \<le> index_bound"
    by (simp add: default_dimension_def index_bound_def)
  ultimately obtain m where m: "vectorize_sequences ?ss default_dimension = Inr m"
      "length m = length ?ss"
    and e: "\<forall>i < length ?ss. length (m ! i) = default_dimension \<and>
              (\<forall>j < default_dimension. m ! i ! j = (if int j \<in> set (?ss ! i) then 1 else 0))"
    using vectorize_sequences_in_range [of default_dimension ?ss] by blast
  have "length (m ! i) = 10000 \<and>
          (\<forall>j < 10000. (m ! i ! j = 0 \<or> m ! i ! j = 1) \<and>
             (m ! i ! j = 1 \<longleftrightarrow> j \<in> set (reviews ! i)))"
    if "i < length reviews" for i
  proof -
    have "int j \<in> set (?ss ! i) \<longleftrightarrow> j \<in> set (reviews ! i)" for j
      using that by (auto simp add: image_iff)
    then show ?thesis
      using e that by (simp add: default_dimension_def)
  qed
  then have "\<forall>i < length reviews. length (m ! i) = 10000 \<and>
          (\<forall>j < 10000. (m ! i ! j = 0 \<or> m ! i ! j = 1) \<and>
             (m ! i ! j = 1 \<longleftrightarrow> j \<in> set (reviews ! i)))"
    by blast
  moreover have "length m = length reviews"
    using m(2) by simp
  ultimately show ?thesis
    using m(1) by blast
qed

text \<open>The theorem at two reviews with tokens 3 and 5.\<close>

theorem c1_multi_hot_matrix_witness:
  "(3::nat) < 10000 \<and> (5::nat) < 10000 \<and>
   (\<exists>m. vectorize_sequences (map (map int) [[3, 5], [5]]) default_dimension = Inr m \<and>
      length m = length [[3, 5], [5::nat]] \<and>
      (\<forall>i < length [[3, 5], [5::nat]]. length (m ! i) = 10000 \<and>
         (\<forall>j < 10000.
            (m ! i ! j = 0 \<or> m ! i ! j = 1) \<and>
            (m ! i ! j = 1 \<longleftrightarrow> j \<in> set ([[3, 5], [5]] ! i)))))"
proof -
  have h: "\<forall>s \<in> set [[3, 5], [5::nat]]. \<forall>t \<in> set s. t < 10000"
    by simp
  from c1_multi_hot_matrix [OF h] show ?thesis
    by simp
qed

section \<open>Order and repetition\<close>

text \<open>
  C4. The encoding discards order and repetition: in any batch, replacing a review by a
  permutation of its tokens, or by the review with duplicate tokens removed, or by any
  review with the same set of tokens, gives the same result of \<open>vectorize_sequences\<close>
  (the same matrix, or the same error when a token is out of bounds).
\<close>

theorem c4_order_and_repetition_discarded:
  "(mset a = mset b \<longrightarrow>
      vectorize_sequences (pre @ a # post) d = vectorize_sequences (pre @ b # post) d) \<and>
   vectorize_sequences (pre @ remdups a # post) d = vectorize_sequences (pre @ a # post) d \<and>
   (set a = set b \<longrightarrow>
      vectorize_sequences (pre @ a # post) d = vectorize_sequences (pre @ b # post) d)"
proof -
  have same: "vectorize_sequences (pre @ x # post) d = vectorize_sequences (pre @ y # post) d"
    if "set x = set y" for x y
  proof -
    have "list_all2 (\<lambda>a b. set a = set b) (pre @ x # post) (pre @ y # post)"
      using that by (simp add: list_all2_appendI list_all2_refl)
    then show ?thesis
      by (simp add: vectorize_sequences_rows encode_rows_cong)
  qed
  have "set a = set b" if "mset a = mset b"
    using that by (rule mset_eq_setD)
  then show ?thesis
    using same [of a b] same [of "remdups a" a] by auto
qed

text \<open>The theorem at the review \<open>[3, 1, 3]\<close> between two other reviews.\<close>

theorem c4_order_and_repetition_discarded_witness:
  "mset [3, 1, 3 :: int] = mset [1, 3, 3] \<and>
   vectorize_sequences ([[0]] @ [3, 1, 3] # [[2]]) 4 =
     vectorize_sequences ([[0]] @ [1, 3, 3] # [[2]]) 4 \<and>
   vectorize_sequences ([[0]] @ remdups [3, 1, 3] # [[2]]) 4 =
     vectorize_sequences ([[0]] @ [3, 1, 3] # [[2]]) 4 \<and>
   set [3, 1, 3 :: int] = set [1, 3] \<and>
   vectorize_sequences ([[0]] @ [3, 1, 3] # [[2]]) 4 =
     vectorize_sequences ([[0]] @ [1, 3] # [[2]]) 4"
proof -
  have h1: "mset [3, 1, 3 :: int] = mset [1, 3, 3]" by simp
  have h2: "set [3, 1, 3 :: int] = set [1, 3]" by auto
  show ?thesis
    using h1 h2
      c4_order_and_repetition_discarded [of "[3, 1, 3]" "[1, 3, 3]" "[[0]]" "[[2]]" 4]
      c4_order_and_repetition_discarded [of "[3, 1, 3]" "[1, 3]" "[[0]]" "[[2]]" 4]
    by blast
qed

section \<open>Index safety\<close>




section \<open>Row locality\<close>

text \<open>
  C10. \<open>vectorize_sequences\<close> is row-local: the result on a concatenation
  \<open>s1 @ s2\<close> is the result on \<open>s1\<close> stacked above the result on \<open>s2\<close>, and row
  \<open>i\<close> of a returned matrix is the encoding of review \<open>i\<close> alone.
\<close>

theorem c10_row_local:
  "vectorize_sequences (s1 @ s2) d = vstack (vectorize_sequences s1 d) (vectorize_sequences s2 d) \<and>
   (vectorize_sequences ss d = Inr m \<and> i < length ss \<longrightarrow>
      vectorize_sequences [ss ! i] d = Inr [m ! i])"
proof -
  have "vectorize_sequences [ss ! i] d = Inr [m ! i]"
    if "vectorize_sequences ss d = Inr m" "i < length ss"
    using encode_rows_Inr [of d ss m] that by (simp add: vectorize_sequences_rows)
  then show ?thesis
    by (simp add: vectorize_sequences_rows encode_rows_append)
qed

text \<open>The theorem at dimension 3, with a token counted from the end in the second part.\<close>

theorem c10_row_local_witness:
  "vectorize_sequences ([[0, 2]] @ [[1], [-1]]) 3 =
     vstack (vectorize_sequences [[0, 2]] 3) (vectorize_sequences [[1], [-1]] 3) \<and>
   vectorize_sequences [[0, 2], [1]] 3 = Inr [[1, 0, 1], [0, 1, 0]] \<and>
   (1::nat) < length [[0, 2], [1::int]] \<and>
   vectorize_sequences [[[0, 2], [1]] ! 1] 3 = Inr [[[1, 0, 1], [0, 1, 0]] ! 1]"
proof -
  have h: "vectorize_sequences [[0, 2], [1]] 3 = Inr [[1, 0, 1], [0, 1, 0]]"
    by (simp add: vectorize_sequences_def zeros_def assign_ones_def index_array_def
        index_bound_def normalize_index_def set_ones_def numeral_3_eq_3)
  show ?thesis
    using h c10_row_local [of "[[0, 2]]" "[[1], [-1]]" 3 "[[0, 2], [1]]" "[[1, 0, 1], [0, 1, 0]]" 1]
    by simp
qed

end
